theory Spec2Isabelle
  imports Main "HOL-Library.Word"
begin

section \<open>The stream adapter of \<^verbatim>\<open>src/index.ts\<close> (class RTCStream)\<close>

text \<open>
  The adapter wraps one transport handle (a WebSocket or an RTCDataChannel) and keeps at
  most one outstanding write: a byte buffer and the completion callback of the duplex
  layer. Everything the class does to its collaborators (the handle, the timer queue,
  the duplex layer) is recorded, in call order, in a trace kept with the state. Calls
  into the duplex layer other than a write callback (\<^verbatim>\<open>emit\<close>, \<^verbatim>\<open>push\<close>, the
  destroy callback) are recorded and taken to return.
\<close>

subsection \<open>Data\<close>

type_synonym byte = "8 word"
type_synonym buffer = "byte list"

text \<open>\<^verbatim>\<open>readyState\<close> and the two sentinels have the TypeScript type
  \<^verbatim>\<open>number | string\<close>; they are compared with \<^verbatim>\<open>===\<close>.\<close>

datatype js_value = JNumber int | JString string

datatype error = Error string | TypeError string

text \<open>A \<^verbatim>\<open>WriteCallback\<close> is a closure of the duplex layer; the model names
  it by a number and records each call of it.\<close>

type_synonym callback = nat

datatype event_type = open_ev | close_ev | error_ev | message_ev

datatype listener = onOpen_fn | onClose_fn | onError_fn | onMessage_fn

datatype effect =
    SetBinaryType string
  | AddEventListener event_type listener
  | RemoveEventListener event_type listener
  | NextTick listener
  | Emit string
  | Push buffer
  | Send buffer
  | SetTimeout int
  | InvokeWriteCallback callback "error option"
  | HandleClose
  | InvokeDestroyCallback "error option"
  | Uncaught error

text \<open>
  The handle, as far as the class reads it. \<open>sentinels\<close> holds the constants
  \<^verbatim>\<open>OPEN\<close> and \<^verbatim>\<open>CLOSED\<close> when the handle has them (a WebSocket).
  \<open>send_raises chunk\<close> is the error that \<^verbatim>\<open>send(chunk)\<close> throws, or
  \<open>None\<close> when it returns. \<open>readyState\<close>, \<open>bufferedAmount\<close> and
  \<open>send_raises\<close> belong to the transport: only the transport changes them.
\<close>

record handle =
  sentinels :: "(js_value \<times> js_value) option"
  readyState :: js_value
  bufferedAmount :: int
  send_raises :: "buffer \<Rightarrow> error option"
  binaryType :: string
  listeners :: "(event_type \<times> listener) set"

record options =
  opt_bufferSize :: "int option"
  opt_bufferTimeout :: "int option"

text \<open>
  The private fields of the class, the \<open>destroyed\<close> flag of the duplex layer and the
  trace. \<^verbatim>\<open>bufferSize\<close> and \<^verbatim>\<open>bufferTimeout\<close> are JavaScript numbers; the
  model takes them to be integers, as \<^verbatim>\<open>bufferedAmount\<close> and buffer lengths are.
\<close>

record rtc_stream =
  handle :: handle
  bufferSize :: int
  bufferTimeout :: int
  openStateValue :: js_value
  closedStateValue :: js_value
  pendingWriteBuffer :: "buffer option"
  pendingWriteCallback :: "callback option"
  destroyed :: bool
  trace :: "effect list"

text \<open>
  What a write callback does when it is called is not part of the class: the duplex layer
  supplies it, and it may call back into the adapter before it returns. The operations
  take it as a parameter: \<open>K cb err s\<close> is the state in which the call
  \<^verbatim>\<open>cb(err)\<close>, made in state \<open>s\<close>, returns. \<open>returns\<close> is the callback that
  comes back without touching the adapter.
\<close>

type_synonym callback_body = "callback \<Rightarrow> error option \<Rightarrow> rtc_stream \<Rightarrow> rtc_stream"

definition returns :: callback_body where
  "returns cb err s = s"

definition record_effects :: "effect list \<Rightarrow> rtc_stream \<Rightarrow> rtc_stream" where
  "record_effects es s = s\<lparr>trace := trace s @ es\<rparr>"

subsection \<open>Buffer.slice\<close>

text \<open>
  \<^verbatim>\<open>buffer.slice(start, end)\<close> of Node: a negative index counts from the end of
  the buffer, every index is clamped to the buffer, and \<^verbatim>\<open>end\<close> defaults to the
  length.
\<close>

definition slice_index :: "nat \<Rightarrow> int \<Rightarrow> nat" where
  "slice_index len i = (if i < 0 then nat (max 0 (int len + i)) else min (nat i) len)"

definition slice :: "buffer \<Rightarrow> int \<Rightarrow> int option \<Rightarrow> buffer" where
  "slice b start fin =
     (let s = slice_index (length b) start;
          e = (case fin of None \<Rightarrow> length b | Some j \<Rightarrow> slice_index (length b) j)
      in take (e - s) (drop s b))"

subsection \<open>The write flow control\<close>

text \<open>\<^verbatim>\<open>_finishPendingWrite\<close>: both fields are cleared, then the stored callback is
  called. With no stored callback the call of \<^verbatim>\<open>null\<close> raises a TypeError. The
  model records in the trace an error raised behind one of the two non-null assertions of
  the class. No state that the adapter reaches from its constructor raises one
  (\<open>reachable_never_throws\<close> below).\<close>

definition finishPendingWrite :: "callback_body \<Rightarrow> error option \<Rightarrow> rtc_stream \<Rightarrow> rtc_stream" where
  "finishPendingWrite K err s =
     (let s' = s\<lparr>pendingWriteBuffer := None, pendingWriteCallback := None\<rparr> in
      case pendingWriteCallback s of
        None \<Rightarrow> record_effects [Uncaught (TypeError ''cb is not a function'')] s'
      | Some cb \<Rightarrow> K cb err (record_effects [InvokeWriteCallback cb err] s'))"

text \<open>The split of lines 116 to 124: the chunk to send now and the rest, if any.\<close>

definition split_buffer :: "buffer \<Rightarrow> int \<Rightarrow> buffer \<times> buffer option" where
  "split_buffer buffer bufferSpaceAvailable =
     (if int (length buffer) > bufferSpaceAvailable
      then (slice buffer 0 (Some bufferSpaceAvailable), Some (slice buffer bufferSpaceAvailable None))
      else (buffer, None))"

text \<open>\<^verbatim>\<open>_maybeProcessPendingWrite\<close>, the advance routine. Reading the length of a
  \<^verbatim>\<open>null\<close> buffer raises a TypeError outside the \<^verbatim>\<open>try\<close>.\<close>

definition maybeProcessPendingWrite :: "callback_body \<Rightarrow> rtc_stream \<Rightarrow> rtc_stream" where
  "maybeProcessPendingWrite K s =
     (if pendingWriteCallback s = None then s
      else if readyState (handle s) = closedStateValue s
        then finishPendingWrite K (Some (Error ''not connected'')) s
      else if readyState (handle s) \<noteq> openStateValue s then s
      else
        let bufferSpaceAvailable = bufferSize s - bufferedAmount (handle s) in
        if bufferSpaceAvailable = 0 then record_effects [SetTimeout (bufferTimeout s)] s
        else
          case pendingWriteBuffer s of
            None \<Rightarrow> record_effects [Uncaught (TypeError ''buffer is null'')] s
          | Some buffer \<Rightarrow>
              (case split_buffer buffer bufferSpaceAvailable of (chunk, rest) \<Rightarrow>
                 (case send_raises (handle s) chunk of
                    Some e \<Rightarrow> finishPendingWrite K (Some e) (record_effects [Send chunk] s)
                  | None \<Rightarrow>
                      (case rest of
                         Some r \<Rightarrow>
                           record_effects [SetTimeout (bufferTimeout s)]
                             ((record_effects [Send chunk] s)\<lparr>pendingWriteBuffer := Some r\<rparr>)
                       | None \<Rightarrow> finishPendingWrite K None (record_effects [Send chunk] s)))))"

text \<open>
  \<^verbatim>\<open>_writev\<close> and \<^verbatim>\<open>_write\<close> (here \<open>write_impl\<close>). A chunk is a string or a buffer; the encoding
  that comes with it is not read. \<open>utf8\<close> stands for \<^verbatim>\<open>Buffer.from(chunk, "utf8")\<close>
  of Node, which the class calls on a string.
\<close>

datatype 'str chunk = StringChunk 'str | BufferChunk buffer

type_synonym encoding = string

definition chunk_bytes :: "('str \<Rightarrow> buffer) \<Rightarrow> 'str chunk \<Rightarrow> buffer" where
  "chunk_bytes utf8 c = (case c of StringChunk x \<Rightarrow> utf8 x | BufferChunk b \<Rightarrow> b)"

definition writev ::
  "('str \<Rightarrow> buffer) \<Rightarrow> callback_body \<Rightarrow> ('str chunk \<times> encoding) list \<Rightarrow> callback \<Rightarrow> rtc_stream \<Rightarrow> rtc_stream" where
  "writev utf8 K chunks cb s =
     maybeProcessPendingWrite K
       (s\<lparr>pendingWriteBuffer := Some (concat (map (\<lambda>(c, enc). chunk_bytes utf8 c) chunks)),
          pendingWriteCallback := Some cb\<rparr>)"

definition write_impl ::
  "('str \<Rightarrow> buffer) \<Rightarrow> callback_body \<Rightarrow> 'str chunk \<Rightarrow> encoding \<Rightarrow> callback \<Rightarrow> rtc_stream \<Rightarrow> rtc_stream" where
  "write_impl utf8 K c enc cb s = writev utf8 K [(c, enc)] cb s"

subsection \<open>Lifecycle\<close>

text \<open>\<^verbatim>\<open>_destroy\<close>: the four listeners are removed, the handle is closed, the
  callback of the duplex layer gets the error.\<close>

definition destroy_impl :: "error option \<Rightarrow> rtc_stream \<Rightarrow> rtc_stream" where
  "destroy_impl err s =
     record_effects
       [RemoveEventListener message_ev onMessage_fn,
        RemoveEventListener error_ev onError_fn,
        RemoveEventListener close_ev onClose_fn,
        RemoveEventListener open_ev onOpen_fn,
        HandleClose,
        InvokeDestroyCallback err]
       (s\<lparr>handle := (handle s)\<lparr>listeners := listeners (handle s)
            - {(message_ev, onMessage_fn), (error_ev, onError_fn),
               (close_ev, onClose_fn), (open_ev, onOpen_fn)}\<rparr>\<rparr>)"

text \<open>
  Modelled from the spec: \<^verbatim>\<open>destroy\<close> is inherited from the duplex class and is
  not in \<^verbatim>\<open>src/\<close>. The spec gives the adapter a destroyed flag, has the destroy
  path run once, and has destroy forward the error that triggered it to
  \<^verbatim>\<open>_destroy\<close>.
\<close>

definition destroy :: "error option \<Rightarrow> rtc_stream \<Rightarrow> rtc_stream" where
  "destroy err s = (if destroyed s then s else destroy_impl err (s\<lparr>destroyed := True\<rparr>))"

definition onOpen :: "callback_body \<Rightarrow> rtc_stream \<Rightarrow> rtc_stream" where
  "onOpen K s = maybeProcessPendingWrite K (record_effects [Emit ''connect''] s)"

definition onClose :: "callback_body \<Rightarrow> rtc_stream \<Rightarrow> rtc_stream" where
  "onClose K s = destroy (Some (Error ''connection closed'')) (maybeProcessPendingWrite K s)"

text \<open>An error event carries a message (an ErrorEvent) or none (a plain Event).\<close>

definition onError :: "callback_body \<Rightarrow> string option \<Rightarrow> rtc_stream \<Rightarrow> rtc_stream" where
  "onError K message s =
     destroy (Some (Error (case message of Some m \<Rightarrow> m | None \<Rightarrow> ''connection refused'')))
       (maybeProcessPendingWrite K s)"

text \<open>A message event carries an ArrayBuffer or a string.\<close>

definition onMessage :: "('str \<Rightarrow> buffer) \<Rightarrow> 'str chunk \<Rightarrow> rtc_stream \<Rightarrow> rtc_stream" where
  "onMessage utf8 data s = record_effects [Push (chunk_bytes utf8 data)] s"

text \<open>The constructor. The synthetic open or close event is queued for the next tick.\<close>

definition new_RTCStream :: "handle \<Rightarrow> options \<Rightarrow> rtc_stream" where
  "new_RTCStream h opts =
     (let openV = (case sentinels h of Some (o_v, c_v) \<Rightarrow> o_v | None \<Rightarrow> JString ''open'');
          closedV = (case sentinels h of Some (o_v, c_v) \<Rightarrow> c_v | None \<Rightarrow> JString ''closed'')
      in \<lparr>handle = h\<lparr>binaryType := ''arraybuffer'',
                      listeners := listeners h \<union>
                        {(open_ev, onOpen_fn), (close_ev, onClose_fn),
                         (error_ev, onError_fn), (message_ev, onMessage_fn)}\<rparr>,
          bufferSize = (case opt_bufferSize opts of Some n \<Rightarrow> n | None \<Rightarrow> 1024 * 512),
          bufferTimeout = (case opt_bufferTimeout opts of Some n \<Rightarrow> n | None \<Rightarrow> 50),
          openStateValue = openV,
          closedStateValue = closedV,
          pendingWriteBuffer = None,
          pendingWriteCallback = None,
          destroyed = False,
          trace =
            [SetBinaryType ''arraybuffer'',
             AddEventListener open_ev onOpen_fn,
             AddEventListener close_ev onClose_fn,
             AddEventListener error_ev onError_fn,
             AddEventListener message_ev onMessage_fn]
            @ (if readyState h = openV then [NextTick onOpen_fn]
               else if readyState h = closedV then [NextTick onClose_fn]
               else [])\<rparr>)"

subsection \<open>Runs of the adapter\<close>

text \<open>
  The calls that reach the adapter, one at a time (the class runs on one thread): the
  duplex layer writes or destroys, a timer set by the advance routine fires, an event
  handler runs. \<open>Transport\<close> is the transport changing what the handle shows.
\<close>

datatype 'str op =
    Writev "('str chunk \<times> encoding) list" callback
  | Write "'str chunk" encoding callback
  | TimerFires
  | OpenEvent
  | CloseEvent
  | ErrorEvent "string option"
  | MessageEvent "'str chunk"
  | Destroy "error option"
  | Transport js_value int "buffer \<Rightarrow> error option"

definition apply_op :: "('str \<Rightarrow> buffer) \<Rightarrow> callback_body \<Rightarrow> 'str op \<Rightarrow> rtc_stream \<Rightarrow> rtc_stream" where
  "apply_op utf8 K x s =
     (case x of
        Writev chunks cb \<Rightarrow> writev utf8 K chunks cb s
      | Write c enc cb \<Rightarrow> write_impl utf8 K c enc cb s
      | TimerFires \<Rightarrow> maybeProcessPendingWrite K s
      | OpenEvent \<Rightarrow> onOpen K s
      | CloseEvent \<Rightarrow> onClose K s
      | ErrorEvent m \<Rightarrow> onError K m s
      | MessageEvent d \<Rightarrow> onMessage utf8 d s
      | Destroy err \<Rightarrow> destroy err s
      | Transport rs amount raises \<Rightarrow>
          s\<lparr>handle := (handle s)\<lparr>readyState := rs, bufferedAmount := amount, send_raises := raises\<rparr>\<rparr>)"

fun run :: "('str \<Rightarrow> buffer) \<Rightarrow> callback_body \<Rightarrow> 'str op list \<Rightarrow> rtc_stream \<Rightarrow> rtc_stream" where
  "run utf8 K [] s = s"
| "run utf8 K (x # xs) s = run utf8 K xs (apply_op utf8 K x s)"

subsection \<open>What a trace shows\<close>

text \<open>The bytes handed to \<^verbatim>\<open>send\<close>, in call order.\<close>

fun sent :: "effect list \<Rightarrow> buffer" where
  "sent [] = []"
| "sent (Send b # es) = b @ sent es"
| "sent (e # es) = sent es"

text \<open>The calls of write callbacks, in call order.\<close>

fun callbacks :: "effect list \<Rightarrow> (callback \<times> error option) list" where
  "callbacks [] = []"
| "callbacks (InvokeWriteCallback cb err # es) = (cb, err) # callbacks es"
| "callbacks (e # es) = callbacks es"

text \<open>The calls that belong to the destroy path: listener removals, the close of the
  handle, the destroy callback.\<close>

fun teardown :: "effect list \<Rightarrow> effect list" where
  "teardown [] = []"
| "teardown (RemoveEventListener ev l # es) = RemoveEventListener ev l # teardown es"
| "teardown (HandleClose # es) = HandleClose # teardown es"
| "teardown (InvokeDestroyCallback err # es) = InvokeDestroyCallback err # teardown es"
| "teardown (e # es) = teardown es"

text \<open>The errors that escaped a call uncaught.\<close>

fun uncaught :: "effect list \<Rightarrow> error list" where
  "uncaught [] = []"
| "uncaught (Uncaught e # es) = e # uncaught es"
| "uncaught (e # es) = uncaught es"

text \<open>The bytes a write call submits, and those of a whole run.\<close>

definition chunks_bytes :: "('str \<Rightarrow> buffer) \<Rightarrow> ('str chunk \<times> encoding) list \<Rightarrow> buffer" where
  "chunks_bytes utf8 chunks = concat (map (\<lambda>(c, enc). chunk_bytes utf8 c) chunks)"



text \<open>The pair of pending fields is set together or not at all.\<close>

definition paired :: "rtc_stream \<Rightarrow> bool" where
  "paired s = ((pendingWriteBuffer s = None) = (pendingWriteCallback s = None))"

definition idle :: "rtc_stream \<Rightarrow> bool" where
  "idle s = (pendingWriteBuffer s = None \<and> pendingWriteCallback s = None)"

text \<open>
  The transport is open: \<^verbatim>\<open>readyState\<close> is the open sentinel and not the closed
  one (the advance routine tests the closed sentinel first).
\<close>

definition transport_open :: "rtc_stream \<Rightarrow> bool" where
  "transport_open s =
     (readyState (handle s) = openStateValue s \<and> readyState (handle s) \<noteq> closedStateValue s)"

definition headroom :: "rtc_stream \<Rightarrow> int" where
  "headroom s = bufferSize s - bufferedAmount (handle s)"

text \<open>\<^verbatim>\<open>send\<close> returns normally, whatever the chunk.\<close>

definition send_returns :: "rtc_stream \<Rightarrow> bool" where
  "send_returns s = (send_raises (handle s) = (\<lambda>chunk. None))"

definition clear_to_send :: "rtc_stream \<Rightarrow> bool" where
  "clear_to_send s = (transport_open s \<and> 0 < headroom s \<and> send_returns s)"

text \<open>Which calls enter the advance routine, and which are writes.\<close>

fun advances :: "'str op \<Rightarrow> bool" where
  "advances (MessageEvent d) = False"
| "advances (Destroy err) = False"
| "advances (Transport rs amount raises) = False"
| "advances x = True"

fun is_write :: "'str op \<Rightarrow> bool" where
  "is_write (Writev chunks cb) = True"
| "is_write (Write c enc cb) = True"
| "is_write x = False"

text \<open>
  A run in which the transport is clear to send at every attempt to advance, and in
  which the duplex layer keeps its contract: it submits a write only when the one before
  has been completed.
\<close>

fun clear_run :: "('str \<Rightarrow> buffer) \<Rightarrow> callback_body \<Rightarrow> 'str op list \<Rightarrow> rtc_stream \<Rightarrow> bool" where
  "clear_run utf8 K [] s = True"
| "clear_run utf8 K (x # xs) s =
     ((if advances x then clear_to_send s else True) \<and>
      (if is_write x then idle s else True) \<and>
      clear_run utf8 K xs (apply_op utf8 K x s))"

text \<open>How many timers fire in a run.\<close>

definition timer_count :: "'str op list \<Rightarrow> nat" where
  "timer_count xs = length (filter (\<lambda>x. x = TimerFires) xs)"

text \<open>A poll: a timer fires, or the transport changes what the handle shows.\<close>

fun is_poll :: "'str op \<Rightarrow> bool" where
  "is_poll TimerFires = True"
| "is_poll (Transport rs amount raises) = True"
| "is_poll x = False"


text \<open>
  The write callback of Node's Writable stream (\<^verbatim>\<open>onwrite\<close>): called with an error, it
  destroys the stream with that error; called without one, it leaves the adapter alone.
  It is the same function for every write of a stream.
\<close>

definition destroys_on_error :: callback_body where
  "destroys_on_error cb err s = (case err of None \<Rightarrow> s | Some e \<Rightarrow> destroy (Some e) s)"




text \<open>The calls of one write callback in a trace, and the callbacks that the writes of a
  run hand in.\<close>

definition calls_of :: "callback \<Rightarrow> effect list \<Rightarrow> (callback \<times> error option) list" where
  "calls_of cb es = filter (\<lambda>p. fst p = cb) (callbacks es)"

fun write_callbacks :: "'str op list \<Rightarrow> callback list" where
  "write_callbacks [] = []"
| "write_callbacks (Writev chunks cb # xs) = cb # write_callbacks xs"
| "write_callbacks (Write c enc cb # xs) = cb # write_callbacks xs"
| "write_callbacks (x # xs) = write_callbacks xs"

text \<open>A string of the examples is a list of ASCII codes, which UTF-8 leaves as they are.\<close>

definition ascii :: "byte list \<Rightarrow> buffer" where
  "ascii cs = cs"

subsection \<open>Example states\<close>

text \<open>A WebSocket handle (\<^verbatim>\<open>OPEN\<close> is 1, \<^verbatim>\<open>CLOSED\<close> is 3), open, with an empty
  send buffer, and an adapter on it with \<^verbatim>\<open>bufferSize\<close> 10.\<close>

definition ws_handle :: handle where
  "ws_handle =
     \<lparr>sentinels = Some (JNumber 1, JNumber 3), readyState = JNumber 1, bufferedAmount = 0,
      send_raises = (\<lambda>chunk. None), binaryType = ''blob'', listeners = {}\<rparr>"

definition small_stream :: rtc_stream where
  "small_stream = new_RTCStream ws_handle \<lparr>opt_bufferSize = Some 10, opt_bufferTimeout = None\<rparr>"

definition bytes15 :: buffer where
  "bytes15 = [1, 2, 3, 4, 5, 6, 7, 8, 9, 10, 11, 12, 13, 14, 15]"

definition with_write :: "buffer \<Rightarrow> callback \<Rightarrow> rtc_stream \<Rightarrow> rtc_stream" where
  "with_write b cb s = s\<lparr>pendingWriteBuffer := Some b, pendingWriteCallback := Some cb\<rparr>"

definition shows_state :: "js_value \<Rightarrow> int \<Rightarrow> rtc_stream \<Rightarrow> rtc_stream" where
  "shows_state rs amount s = s\<lparr>handle := (handle s)\<lparr>readyState := rs, bufferedAmount := amount\<rparr>\<rparr>"

definition send_fails :: "error \<Rightarrow> rtc_stream \<Rightarrow> rtc_stream" where
  "send_fails e s = s\<lparr>handle := (handle s)\<lparr>send_raises := (\<lambda>chunk. Some e)\<rparr>\<rparr>"



text \<open>The adapter with a 15-byte write outstanding: the handle closed, open, and open
  with a \<^verbatim>\<open>send\<close> that throws.\<close>

definition closed_with_write :: rtc_stream where
  "closed_with_write = with_write bytes15 7 (shows_state (JNumber 3) 0 small_stream)"

definition open_with_write :: rtc_stream where
  "open_with_write = with_write bytes15 7 small_stream"

definition failing_with_write :: rtc_stream where
  "failing_with_write = send_fails (Error ''boom'') open_with_write"

text \<open>A 3-byte write against headroom 2, polls during which the headroom shrinks to 1,
  and a 5-byte write while the transport holds 12 bytes, two more than
  \<^verbatim>\<open>bufferSize\<close>.\<close>

definition tight_with_write :: rtc_stream where
  "tight_with_write = with_write [1, 2, 3] 7 (shows_state (JNumber 1) 8 small_stream)"

definition tight_polls :: "byte list op list" where
  "tight_polls = [TimerFires, Transport (JNumber 1) 9 (\<lambda>chunk. None), TimerFires, TimerFires]"

definition overfull_with_write :: rtc_stream where
  "overfull_with_write = with_write [1, 2, 3, 4, 5] 7 (shows_state (JNumber 1) 12 small_stream)"






text \<open>The same write outstanding while the handle shows 2, the closing state of a
  WebSocket, which is neither sentinel.\<close>

definition closing_with_write :: rtc_stream where
  "closing_with_write = with_write bytes15 7 (shows_state (JNumber 2) 0 small_stream)"

text \<open>The four listeners the constructor registers.\<close>

definition own_listeners :: "(event_type \<times> listener) set" where
  "own_listeners =
     {(message_ev, onMessage_fn), (error_ev, onError_fn), (close_ev, onClose_fn),
      (open_ev, onOpen_fn)}"

text \<open>The calls \<^verbatim>\<open>_destroy\<close> makes, in order.\<close>

definition teardown_calls :: "error option \<Rightarrow> effect list" where
  "teardown_calls err =
     [RemoveEventListener message_ev onMessage_fn,
      RemoveEventListener error_ev onError_fn,
      RemoveEventListener close_ev onClose_fn,
      RemoveEventListener open_ev onOpen_fn,
      HandleClose,
      InvokeDestroyCallback err]"

text \<open>The message of the error that an error event destroys the adapter with.\<close>

definition error_message :: "string option \<Rightarrow> string" where
  "error_message m = (case m of Some x \<Rightarrow> x | None \<Rightarrow> ''connection refused'')"

section \<open>Properties\<close>

subsection \<open>Traces and slices\<close>

lemmas example_defs = with_write_def shows_state_def send_fails_def small_stream_def
  new_RTCStream_def ws_handle_def Let_def bytes15_def

lemmas run_defs = apply_op_def writev_def write_impl_def maybeProcessPendingWrite_def
  finishPendingWrite_def record_effects_def returns_def split_buffer_def slice_def
  slice_index_def chunk_bytes_def chunks_bytes_def ascii_def onOpen_def onClose_def
  onError_def onMessage_def destroy_def destroy_impl_def

lemmas env_defs = clear_to_send_def transport_open_def headroom_def send_returns_def idle_def

lemma sent_append: "sent (xs @ ys) = sent xs @ sent ys"
  by (induction xs rule: sent.induct) simp_all

lemma callbacks_append: "callbacks (xs @ ys) = callbacks xs @ callbacks ys"
  by (induction xs rule: callbacks.induct) simp_all

lemma teardown_append: "teardown (xs @ ys) = teardown xs @ teardown ys"
  by (induction xs rule: teardown.induct) simp_all

lemma small_stream_trace:
  "callbacks (trace small_stream) = []" "sent (trace small_stream) = []"
  "teardown (trace small_stream) = []"
  by (simp_all add: example_defs)

lemma slice_cat: "slice b 0 (Some n) @ slice b n None = b"
  by (simp add: slice_def slice_index_def Let_def)

lemma slice_prefix_pos: "0 \<le> n \<Longrightarrow> n \<le> int (length b) \<Longrightarrow> slice b 0 (Some n) = take (nat n) b"
  by (auto simp: slice_def slice_index_def Let_def min_def nat_le_iff)

lemma slice_suffix_pos: "0 \<le> n \<Longrightarrow> slice b n None = drop (nat n) b"
  by (simp add: slice_def slice_index_def Let_def min_def)

subsection \<open>One run of the advance routine, case by case\<close>

lemma advance_idle: "pendingWriteCallback s = None \<Longrightarrow> maybeProcessPendingWrite K s = s"
  by (simp add: maybeProcessPendingWrite_def)

lemma advance_closed:
  "pendingWriteCallback s = Some cb \<Longrightarrow> readyState (handle s) = closedStateValue s \<Longrightarrow>
   maybeProcessPendingWrite K s =
     K cb (Some (Error ''not connected''))
       (s\<lparr>pendingWriteBuffer := None, pendingWriteCallback := None,
          trace := trace s @ [InvokeWriteCallback cb (Some (Error ''not connected''))]\<rparr>)"
  by (simp add: maybeProcessPendingWrite_def finishPendingWrite_def record_effects_def)

lemma advance_waiting:
  "readyState (handle s) \<noteq> closedStateValue s \<Longrightarrow> readyState (handle s) \<noteq> openStateValue s \<Longrightarrow>
   maybeProcessPendingWrite K s = s"
  by (simp add: maybeProcessPendingWrite_def)

lemma advance_full:
  "pendingWriteCallback s = Some cb \<Longrightarrow> transport_open s \<Longrightarrow> headroom s = 0 \<Longrightarrow>
   maybeProcessPendingWrite K s = s\<lparr>trace := trace s @ [SetTimeout (bufferTimeout s)]\<rparr>"
  by (auto simp: maybeProcessPendingWrite_def transport_open_def headroom_def record_effects_def)

lemma advance_partial:
  "pendingWriteCallback s = Some cb \<Longrightarrow> pendingWriteBuffer s = Some b \<Longrightarrow> transport_open s \<Longrightarrow>
   headroom s \<noteq> 0 \<Longrightarrow> headroom s < int (length b) \<Longrightarrow>
   send_raises (handle s) (slice b 0 (Some (headroom s))) = None \<Longrightarrow>
   maybeProcessPendingWrite K s =
     s\<lparr>pendingWriteBuffer := Some (slice b (headroom s) None),
        trace := trace s @ [Send (slice b 0 (Some (headroom s))), SetTimeout (bufferTimeout s)]\<rparr>"
  by (auto simp: maybeProcessPendingWrite_def transport_open_def headroom_def split_buffer_def
      record_effects_def Let_def)

lemma advance_whole:
  "pendingWriteCallback s = Some cb \<Longrightarrow> pendingWriteBuffer s = Some b \<Longrightarrow> transport_open s \<Longrightarrow>
   headroom s \<noteq> 0 \<Longrightarrow> int (length b) \<le> headroom s \<Longrightarrow>
   send_raises (handle s) b = None \<Longrightarrow>
   maybeProcessPendingWrite K s =
     K cb None (s\<lparr>pendingWriteBuffer := None, pendingWriteCallback := None,
        trace := trace s @ [Send b, InvokeWriteCallback cb None]\<rparr>)"
  by (auto simp: maybeProcessPendingWrite_def transport_open_def headroom_def split_buffer_def
      record_effects_def Let_def finishPendingWrite_def)

lemma advance_raise:
  "pendingWriteCallback s = Some cb \<Longrightarrow> pendingWriteBuffer s = Some b \<Longrightarrow> transport_open s \<Longrightarrow>
   headroom s \<noteq> 0 \<Longrightarrow>
   send_raises (handle s) (fst (split_buffer b (headroom s))) = Some e \<Longrightarrow>
   maybeProcessPendingWrite K s =
     K cb (Some e) (s\<lparr>pendingWriteBuffer := None, pendingWriteCallback := None,
        trace := trace s @ [Send (fst (split_buffer b (headroom s))), InvokeWriteCallback cb (Some e)]\<rparr>)"
  by (auto simp: maybeProcessPendingWrite_def transport_open_def headroom_def
      record_effects_def Let_def finishPendingWrite_def split: prod.splits)

subsection \<open>A closed transport fails the outstanding write\<close>

text \<open>
  Claim C3. With a write outstanding and \<^verbatim>\<open>readyState\<close> equal to the closed sentinel,
  one run of the advance routine clears both pending fields, then calls the callback of
  that write once, with the error "not connected"; it calls nothing else, so
  \<^verbatim>\<open>send\<close> is not called. The first equation holds whatever the callback does
  when called; the others read the result for a callback that just returns.
\<close>

theorem closed_fails_pending_write:
  assumes "pendingWriteBuffer s = Some b" and "pendingWriteCallback s = Some cb"
    and "readyState (handle s) = closedStateValue s"
  shows "maybeProcessPendingWrite K s =
           K cb (Some (Error ''not connected''))
             (s\<lparr>pendingWriteBuffer := None, pendingWriteCallback := None,
                trace := trace s @ [InvokeWriteCallback cb (Some (Error ''not connected''))]\<rparr>)
         \<and> maybeProcessPendingWrite returns s =
             s\<lparr>pendingWriteBuffer := None, pendingWriteCallback := None,
               trace := trace s @ [InvokeWriteCallback cb (Some (Error ''not connected''))]\<rparr>
         \<and> sent (trace (maybeProcessPendingWrite returns s)) = sent (trace s)"
  using assms by (simp add: advance_closed returns_def sent_append)

theorem closed_fails_pending_write_witness:
  "pendingWriteBuffer closed_with_write = Some bytes15
   \<and> pendingWriteCallback closed_with_write = Some 7
   \<and> readyState (handle closed_with_write) = closedStateValue closed_with_write
   \<and> callbacks (trace (maybeProcessPendingWrite returns closed_with_write))
       = [(7, Some (Error ''not connected''))]
   \<and> sent (trace (maybeProcessPendingWrite returns closed_with_write)) = []
   \<and> idle (maybeProcessPendingWrite returns closed_with_write)"
proof -
  have b: "pendingWriteBuffer closed_with_write = Some bytes15"
    by (simp add: closed_with_write_def example_defs)
  have c: "pendingWriteCallback closed_with_write = Some 7"
    by (simp add: closed_with_write_def example_defs)
  have r: "readyState (handle closed_with_write) = closedStateValue closed_with_write"
    by (simp add: closed_with_write_def example_defs)
  have t: "trace closed_with_write = trace small_stream"
    by (simp add: closed_with_write_def example_defs)
  from closed_fails_pending_write [OF b c r, of returns] b c r t small_stream_trace
  show ?thesis
    by (simp add: idle_def returns_def callbacks_append sent_append)
qed

subsection \<open>Completion clears, then calls\<close>

lemma completion_shape:
  assumes "pendingWriteCallback s = Some cb"
    and "pendingWriteCallback (maybeProcessPendingWrite returns s) = None"
  shows "\<exists>err es. maybeProcessPendingWrite K s =
           K cb err (s\<lparr>pendingWriteBuffer := None, pendingWriteCallback := None,
                        trace := trace s @ es @ [InvokeWriteCallback cb err]\<rparr>)"
proof (cases "readyState (handle s) = closedStateValue s")
  case True
  from advance_closed [OF assms(1) True, of K] show ?thesis
    by (intro exI [of _ "Some (Error ''not connected'')"] exI [of _ "[]"]) simp
next
  case False
  note not_closed = this
  show ?thesis
  proof (cases "readyState (handle s) = openStateValue s")
    case False
    with not_closed assms show ?thesis
      by (simp add: advance_waiting)
  next
    case True
    with not_closed have op: "transport_open s"
      by (simp add: transport_open_def)
    show ?thesis
    proof (cases "headroom s = 0")
      case True
      from advance_full [OF assms(1) op True, of returns] assms show ?thesis
        by simp
    next
      case False
      show ?thesis
      proof (cases "pendingWriteBuffer s")
        case None
        with assms op False show ?thesis
          by (auto simp: maybeProcessPendingWrite_def transport_open_def headroom_def
              record_effects_def)
      next
        case (Some b)
        show ?thesis
        proof (cases "send_raises (handle s) (fst (split_buffer b (headroom s)))")
          case (Some e)
          from advance_raise [OF assms(1) \<open>pendingWriteBuffer s = Some b\<close> op False Some, of K]
          show ?thesis
            by (intro exI [of _ "Some e"] exI [of _ "[Send (fst (split_buffer b (headroom s)))]"])
              simp
        next
          case None
          show ?thesis
          proof (cases "int (length b) \<le> headroom s")
            case True
            with None have ok: "send_raises (handle s) b = None"
              by (simp add: split_buffer_def)
            from advance_whole [OF assms(1) \<open>pendingWriteBuffer s = Some b\<close> op False True ok, of K]
            show ?thesis
              by (intro exI [of _ None] exI [of _ "[Send b]"]) simp
          next
            case False
            then have less: "headroom s < int (length b)"
              by simp
            with None have ok: "send_raises (handle s) (slice b 0 (Some (headroom s))) = None"
              by (simp add: split_buffer_def)
            from advance_partial [OF assms(1) \<open>pendingWriteBuffer s = Some b\<close> op
                \<open>headroom s \<noteq> 0\<close> less ok, of returns] assms
            show ?thesis
              by simp
          qed
        qed
      qed
    qed
  qed
qed

text \<open>
  Claim C6. Completing an outstanding write clears both pending fields and then calls
  the stored callback, once, with the error it was given (none on success): the callback
  runs in the cleared state. The advance routine, entered again from within the
  callback, finds no outstanding write in that state and does nothing. Every run of the
  advance routine that completes the write has this shape, whatever the callback does:
  some calls, then the callback in the cleared state.
\<close>

theorem finish_clears_then_calls:
  assumes "pendingWriteCallback s = Some cb"
  shows "finishPendingWrite K err s =
           K cb err (s\<lparr>pendingWriteBuffer := None, pendingWriteCallback := None,
                        trace := trace s @ [InvokeWriteCallback cb err]\<rparr>)
         \<and> finishPendingWrite (\<lambda>cb' err'. maybeProcessPendingWrite K') err s =
             s\<lparr>pendingWriteBuffer := None, pendingWriteCallback := None,
               trace := trace s @ [InvokeWriteCallback cb err]\<rparr>
         \<and> callbacks (trace (finishPendingWrite returns err s)) = callbacks (trace s) @ [(cb, err)]
         \<and> (pendingWriteCallback (maybeProcessPendingWrite returns s) = None \<longrightarrow>
              (\<exists>err es. maybeProcessPendingWrite K s =
                 K cb err (s\<lparr>pendingWriteBuffer := None, pendingWriteCallback := None,
                              trace := trace s @ es @ [InvokeWriteCallback cb err]\<rparr>)))"
proof -
  have "finishPendingWrite K err s =
           K cb err (s\<lparr>pendingWriteBuffer := None, pendingWriteCallback := None,
                        trace := trace s @ [InvokeWriteCallback cb err]\<rparr>)" for K
    using assms by (simp add: finishPendingWrite_def record_effects_def)
  then show ?thesis
    using completion_shape [OF assms, of K]
    by (simp add: advance_idle returns_def callbacks_append)
qed

theorem finish_clears_then_calls_witness:
  "pendingWriteCallback open_with_write = Some 7
   \<and> idle (finishPendingWrite (\<lambda>cb' err'. maybeProcessPendingWrite returns) None open_with_write)
   \<and> callbacks (trace (finishPendingWrite returns None open_with_write)) = [(7, None)]
   \<and> callbacks (trace (finishPendingWrite returns (Some (Error ''boom'')) open_with_write))
       = [(7, Some (Error ''boom''))]"
proof -
  have c: "pendingWriteCallback open_with_write = Some 7"
    by (simp add: open_with_write_def example_defs)
  have t: "callbacks (trace open_with_write) = []"
    by (simp add: open_with_write_def example_defs)
  note ok = finish_clears_then_calls [OF c, where K = returns and K' = returns and err = None]
  note ko = finish_clears_then_calls [OF c, where K = returns and K' = returns
      and err = "Some (Error ''boom'')"]
  have a: "idle (finishPendingWrite (\<lambda>cb' err'. maybeProcessPendingWrite returns) None
             open_with_write)"
    by (simp add: ok [THEN conjunct2, THEN conjunct1] idle_def)
  have b: "callbacks (trace (finishPendingWrite returns None open_with_write)) = [(7, None)]"
    using ok [THEN conjunct2, THEN conjunct2, THEN conjunct1] by (simp only: t append_Nil)
  have d: "callbacks (trace (finishPendingWrite returns (Some (Error ''boom'')) open_with_write))
             = [(7, Some (Error ''boom''))]"
    using ko [THEN conjunct2, THEN conjunct2, THEN conjunct1] by (simp only: t append_Nil)
  from c a b d show ?thesis
    by (intro conjI) (assumption+)
qed

subsection \<open>A failing send fails the write and nothing else\<close>

text \<open>
  Claim C7, amended. With a write outstanding, the transport open and the headroom not
  zero, the advance routine calls \<^verbatim>\<open>send\<close> with the chunk it split off. If that
  call throws \<open>e\<close>, both pending fields are cleared and the callback of the write is
  called once, with \<open>e\<close>, and that is all the adapter does: it does not enter the
  destroy path itself. Whether the adapter is torn down is up to the callback: after a
  callback that removes no listener, does not close the handle and does not destroy the
  stream, no listener has been removed, the handle has not been closed and the destroyed
  flag is as before.
\<close>

theorem send_failure_fails_only_the_write:
  assumes "pendingWriteBuffer s = Some b" and "pendingWriteCallback s = Some cb"
    and "transport_open s" and "headroom s \<noteq> 0"
    and "send_raises (handle s) (fst (split_buffer b (headroom s))) = Some e"
    and "\<And>s'. teardown (trace (K cb (Some e) s')) = teardown (trace s')"
    and "\<And>s'. listeners (handle (K cb (Some e) s')) = listeners (handle s')"
    and "\<And>s'. destroyed (K cb (Some e) s') = destroyed s'"
  shows "maybeProcessPendingWrite K' s =
           K' cb (Some e)
             (s\<lparr>pendingWriteBuffer := None, pendingWriteCallback := None,
                trace := trace s @ [Send (fst (split_buffer b (headroom s))),
                                    InvokeWriteCallback cb (Some e)]\<rparr>)
         \<and> teardown (trace (maybeProcessPendingWrite K s)) = teardown (trace s)
         \<and> listeners (handle (maybeProcessPendingWrite K s)) = listeners (handle s)
         \<and> destroyed (maybeProcessPendingWrite K s) = destroyed s
         \<and> callbacks (trace (maybeProcessPendingWrite returns s)) = callbacks (trace s) @ [(cb, Some e)]
         \<and> idle (maybeProcessPendingWrite returns s)
         \<and> teardown (trace (maybeProcessPendingWrite returns s)) = teardown (trace s)
         \<and> listeners (handle (maybeProcessPendingWrite returns s)) = listeners (handle s)
         \<and> destroyed (maybeProcessPendingWrite returns s) = destroyed s"
proof -
  have step: "maybeProcessPendingWrite K' s =
           K' cb (Some e)
             (s\<lparr>pendingWriteBuffer := None, pendingWriteCallback := None,
                trace := trace s @ [Send (fst (split_buffer b (headroom s))),
                                    InvokeWriteCallback cb (Some e)]\<rparr>)" for K'
    by (rule advance_raise [OF assms(2,1,3,4,5)])
  have "teardown (trace (maybeProcessPendingWrite K s)) = teardown (trace s)"
    and "listeners (handle (maybeProcessPendingWrite K s)) = listeners (handle s)"
    and "destroyed (maybeProcessPendingWrite K s) = destroyed s"
    by (simp_all add: step [of K] assms(6,7,8) teardown_append)
  then show ?thesis
    by (simp add: step returns_def callbacks_append teardown_append idle_def)
qed

theorem send_failure_fails_only_the_write_witness:
  "transport_open failing_with_write \<and> headroom failing_with_write = 10
   \<and> callbacks (trace (maybeProcessPendingWrite returns failing_with_write))
       = [(7, Some (Error ''boom''))]
   \<and> idle (maybeProcessPendingWrite returns failing_with_write)
   \<and> teardown (trace (maybeProcessPendingWrite returns failing_with_write)) = []
   \<and> listeners (handle (maybeProcessPendingWrite returns failing_with_write)) = own_listeners
   \<and> \<not> destroyed (maybeProcessPendingWrite returns failing_with_write)"
proof -
  have b: "pendingWriteBuffer failing_with_write = Some bytes15"
    and c: "pendingWriteCallback failing_with_write = Some 7"
    and o: "transport_open failing_with_write"
    and h: "headroom failing_with_write = 10"
    and r: "send_raises (handle failing_with_write)
              (fst (split_buffer bytes15 (headroom failing_with_write))) = Some (Error ''boom'')"
    and t: "trace failing_with_write = trace small_stream"
    and l: "listeners (handle failing_with_write) = own_listeners"
    and d: "\<not> destroyed failing_with_write"
    by (auto simp: failing_with_write_def open_with_write_def example_defs transport_open_def
        headroom_def own_listeners_def)
  have h0: "headroom failing_with_write \<noteq> 0"
    using h by simp
  have k: "teardown (trace (returns 7 (Some (Error ''boom'')) s')) = teardown (trace s')"
    "listeners (handle (returns 7 (Some (Error ''boom'')) s')) = listeners (handle s')"
    "destroyed (returns 7 (Some (Error ''boom'')) s') = destroyed s'" for s'
    by (simp_all add: returns_def)
  note all = send_failure_fails_only_the_write [where K = returns and K' = returns, OF b c o h0 r k]
  note rest = all [THEN conjunct2, THEN conjunct2, THEN conjunct2, THEN conjunct2]
  have a1: "callbacks (trace (maybeProcessPendingWrite returns failing_with_write))
              = [(7, Some (Error ''boom''))]"
    using rest [THEN conjunct1] small_stream_trace(1) by (simp only: t append_Nil)
  note a2 = rest [THEN conjunct2, THEN conjunct1]
  have a3: "teardown (trace (maybeProcessPendingWrite returns failing_with_write)) = []"
    using all [THEN conjunct2, THEN conjunct1] small_stream_trace(3) by (simp only: t)
  have a4: "listeners (handle (maybeProcessPendingWrite returns failing_with_write)) = own_listeners"
    using all [THEN conjunct2, THEN conjunct2, THEN conjunct1] by (simp only: l)
  have a5: "\<not> destroyed (maybeProcessPendingWrite returns failing_with_write)"
    using all [THEN conjunct2, THEN conjunct2, THEN conjunct2, THEN conjunct1] d by simp
  from o h a1 a2 a3 a4 a5 show ?thesis
    by (intro conjI) (assumption+)
qed

text \<open>
  The claim as stated has no teardown follow the failure. The callback that Node hands
  to \<^verbatim>\<open>_write\<close> destroys the stream when it is called with an error: with it, the
  failing \<^verbatim>\<open>send\<close> is followed, within the same run of the advance routine, by the
  removal of the four listeners and the close of the handle.
\<close>

theorem send_failure_destroying_callback_counterexample:
  "pendingWriteBuffer failing_with_write = Some bytes15
   \<and> pendingWriteCallback failing_with_write = Some 7
   \<and> transport_open failing_with_write \<and> headroom failing_with_write = 10
   \<and> callbacks (trace (maybeProcessPendingWrite destroys_on_error failing_with_write))
       = [(7, Some (Error ''boom''))]
   \<and> teardown (trace (maybeProcessPendingWrite destroys_on_error failing_with_write))
       = teardown_calls (Some (Error ''boom''))
   \<and> listeners (handle (maybeProcessPendingWrite destroys_on_error failing_with_write)) = {}
   \<and> destroyed (maybeProcessPendingWrite destroys_on_error failing_with_write)"
  by (simp add: failing_with_write_def open_with_write_def example_defs run_defs env_defs
      destroys_on_error_def teardown_calls_def)

subsection \<open>Destroy leaves the outstanding write alone\<close>

text \<open>
  Claim C9. A destroy that the duplex layer asks for leaves both pending fields as they
  are and calls no write callback: \<^verbatim>\<open>_destroy\<close> removes the four listeners, closes
  the handle and hands the error to the destroy callback, and changes nothing else.
\<close>

theorem destroy_leaves_pending_write:
  assumes "pendingWriteBuffer s = Some b" and "pendingWriteCallback s = Some cb"
  shows "pendingWriteBuffer (destroy err s) = Some b
         \<and> pendingWriteCallback (destroy err s) = Some cb
         \<and> callbacks (trace (destroy err s)) = callbacks (trace s)
         \<and> destroy_impl err s =
             s\<lparr>handle := (handle s)\<lparr>listeners := listeners (handle s) - own_listeners\<rparr>,
               trace := trace s @ teardown_calls err\<rparr>"
  using assms
  by (simp add: destroy_def destroy_impl_def record_effects_def callbacks_append
      own_listeners_def teardown_calls_def)

theorem destroy_leaves_pending_write_witness:
  "pendingWriteBuffer (destroy None open_with_write) = Some bytes15
   \<and> pendingWriteCallback (destroy None open_with_write) = Some 7
   \<and> callbacks (trace (destroy None open_with_write)) = []
   \<and> teardown (trace (destroy None open_with_write)) = teardown_calls None
   \<and> listeners (handle (destroy None open_with_write)) = {}"
proof -
  have b: "pendingWriteBuffer open_with_write = Some bytes15"
    and c: "pendingWriteCallback open_with_write = Some 7"
    and t: "trace open_with_write = trace small_stream"
    by (simp_all add: open_with_write_def example_defs)
  have e: "teardown (trace (destroy None open_with_write)) = teardown_calls None"
    "listeners (handle (destroy None open_with_write)) = {}"
    by (simp_all add: destroy_def destroy_impl_def record_effects_def teardown_append
        teardown_calls_def open_with_write_def example_defs)
  from destroy_leaves_pending_write [OF b c, of None] t e small_stream_trace
  show ?thesis
    by simp
qed

subsection \<open>Close and error events\<close>

lemma destroy_fresh:
  "\<not> destroyed s \<Longrightarrow>
   destroy err s =
     s\<lparr>handle := (handle s)\<lparr>listeners := listeners (handle s) - own_listeners\<rparr>,
       destroyed := True, trace := trace s @ teardown_calls err\<rparr>"
  by (simp add: destroy_def destroy_impl_def record_effects_def own_listeners_def
      teardown_calls_def)

lemma destroy_again: "destroyed s \<Longrightarrow> destroy err s = s"
  by (simp add: destroy_def)

text \<open>The path that works: when \<^verbatim>\<open>readyState\<close> is the closed sentinel, a close or
  error event has the callback of the outstanding write called, with "not connected",
  before the destroy path runs, whatever the callback does.\<close>

lemma event_when_closed:
  assumes "pendingWriteCallback s = Some cb" and "readyState (handle s) = closedStateValue s"
  shows "onClose K s =
           destroy (Some (Error ''connection closed''))
             (K cb (Some (Error ''not connected''))
               (s\<lparr>pendingWriteBuffer := None, pendingWriteCallback := None,
                  trace := trace s @ [InvokeWriteCallback cb (Some (Error ''not connected''))]\<rparr>))"
    and "onError K m s =
           destroy (Some (Error (error_message m)))
             (K cb (Some (Error ''not connected''))
               (s\<lparr>pendingWriteBuffer := None, pendingWriteCallback := None,
                  trace := trace s @ [InvokeWriteCallback cb (Some (Error ''not connected''))]\<rparr>))"
  by (simp_all add: onClose_def onError_def advance_closed [OF assms] error_message_def)

lemma event_when_closed_example:
  "callbacks (trace (onClose returns closed_with_write)) = [(7, Some (Error ''not connected''))]
   \<and> teardown (trace (onClose returns closed_with_write))
       = teardown_calls (Some (Error ''connection closed''))
   \<and> teardown (trace (onError returns (Some ''reset by peer'') closed_with_write))
       = teardown_calls (Some (Error ''reset by peer''))
   \<and> idle (onClose returns closed_with_write)"
  by (simp add: closed_with_write_def example_defs run_defs env_defs teardown_calls_def)

text \<open>
  Claim C4. A close or error event that arrives while a write is outstanding is to run
  the destroy path once, with the callback of the write called with an error before the
  destroy callback. The code does not do this when \<^verbatim>\<open>readyState\<close> is not yet the
  closed sentinel at the time of the event: \<^verbatim>\<open>_onError\<close> enters the advance routine
  to fail the write, the routine returns at its test for the open sentinel, and the
  destroy path runs alone. With the handle showing 2 (closing) and no message in the
  event, the four listeners are removed, the handle is closed and the destroy callback
  gets "connection refused", but the callback of the write is never called and the
  write stays in the pending fields, whatever the callback would do.
\<close>

theorem error_event_while_closing_leaves_write:
  "teardown (trace (onError K None closing_with_write))
     = teardown_calls (Some (Error ''connection refused''))
   \<and> callbacks (trace (onError K None closing_with_write)) = []
   \<and> pendingWriteBuffer (onError K None closing_with_write) = Some bytes15
   \<and> pendingWriteCallback (onError K None closing_with_write) = Some 7
   \<and> listeners (handle (onError K None closing_with_write)) = {}
   \<and> destroyed (onError K None closing_with_write)"
proof -
  have "maybeProcessPendingWrite K closing_with_write = closing_with_write"
    by (rule advance_waiting) (simp_all add: closing_with_write_def example_defs)
  then show ?thesis
    by (simp add: onError_def)
      (simp add: closing_with_write_def example_defs destroy_def destroy_impl_def
        record_effects_def teardown_calls_def)
qed

subsection \<open>A new write replaces the outstanding one\<close>

lemma advance_keeps_others:
  assumes "pendingWriteCallback s \<noteq> Some old"
  shows "pendingWriteCallback (maybeProcessPendingWrite returns s) \<noteq> Some old
         \<and> calls_of old (trace (maybeProcessPendingWrite returns s)) = calls_of old (trace s)"
  using assms
  by (auto simp: maybeProcessPendingWrite_def finishPendingWrite_def record_effects_def
      returns_def calls_of_def callbacks_append Let_def split: option.splits prod.splits)

lemma destroy_keeps_others:
  "pendingWriteCallback (destroy err s) = pendingWriteCallback s
   \<and> calls_of old (trace (destroy err s)) = calls_of old (trace s)"
  by (simp add: destroy_def destroy_impl_def record_effects_def calls_of_def callbacks_append)

lemma writev_keeps_others:
  assumes "old \<noteq> cb"
  shows "pendingWriteCallback (writev utf8 returns chunks cb s) \<noteq> Some old
         \<and> calls_of old (trace (writev utf8 returns chunks cb s)) = calls_of old (trace s)"
proof -
  let ?s = "s\<lparr>pendingWriteBuffer := Some (concat (map (\<lambda>(c, enc). chunk_bytes utf8 c) chunks)),
              pendingWriteCallback := Some cb\<rparr>"
  have "pendingWriteCallback ?s \<noteq> Some old"
    using assms by simp
  from advance_keeps_others [OF this] show ?thesis
    by (simp add: writev_def)
qed

lemma apply_op_keeps_others:
  assumes "pendingWriteCallback s \<noteq> Some old" and "old \<notin> set (write_callbacks [x])"
  shows "pendingWriteCallback (apply_op utf8 returns x s) \<noteq> Some old
         \<and> calls_of old (trace (apply_op utf8 returns x s)) = calls_of old (trace s)"
proof (cases x)
  case (Writev chunks cb)
  with assms(2) writev_keeps_others [of old cb utf8 chunks s] show ?thesis
    by (simp add: apply_op_def)
next
  case (Write c enc cb)
  with assms(2) writev_keeps_others [of old cb utf8 "[(c, enc)]" s] show ?thesis
    by (simp add: apply_op_def write_impl_def)
next
  case TimerFires
  with advance_keeps_others [OF assms(1)] show ?thesis
    by (simp add: apply_op_def)
next
  case OpenEvent
  have "pendingWriteCallback (record_effects [Emit ''connect''] s) \<noteq> Some old"
    using assms(1) by (simp add: record_effects_def)
  from advance_keeps_others [OF this] OpenEvent show ?thesis
    by (simp add: apply_op_def onOpen_def record_effects_def calls_of_def callbacks_append)
next
  case CloseEvent
  with advance_keeps_others [OF assms(1)] show ?thesis
    by (simp add: apply_op_def onClose_def destroy_keeps_others)
next
  case (ErrorEvent m)
  with advance_keeps_others [OF assms(1)] show ?thesis
    by (simp add: apply_op_def onError_def destroy_keeps_others)
next
  case (MessageEvent d)
  with assms(1) show ?thesis
    by (simp add: apply_op_def onMessage_def record_effects_def calls_of_def callbacks_append)
next
  case (Destroy err)
  with assms(1) show ?thesis
    by (simp add: apply_op_def destroy_keeps_others)
next
  case (Transport rs amount raises)
  with assms(1) show ?thesis
    by (simp add: apply_op_def)
qed

lemma run_keeps_others:
  "pendingWriteCallback s \<noteq> Some old \<Longrightarrow> old \<notin> set (write_callbacks xs) \<Longrightarrow>
   calls_of old (trace (run utf8 returns xs s)) = calls_of old (trace s)"
proof (induction xs arbitrary: s)
  case Nil
  then show ?case by simp
next
  case (Cons x xs)
  have x: "old \<notin> set (write_callbacks [x])" and xs: "old \<notin> set (write_callbacks xs)"
    using Cons.prems(2) by (cases x; simp)+
  from apply_op_keeps_others [OF Cons.prems(1) x, of utf8]
  have "pendingWriteCallback (apply_op utf8 returns x s) \<noteq> Some old"
    and "calls_of old (trace (apply_op utf8 returns x s)) = calls_of old (trace s)"
    by simp_all
  with Cons.IH [OF _ xs, of "apply_op utf8 returns x s"] show ?case
    by simp
qed

text \<open>
  Claim C10, amended. \<^verbatim>\<open>_writev\<close> does not read the pending fields: whether or not
  a write is outstanding, it installs the concatenation of the chunks (a string chunk as
  its UTF-8 bytes) and the new callback, and enters the advance routine from there. The
  callback of a write that was outstanding is dropped: unless the same function is handed
  in again, as the new callback or with a later write, neither the call nor anything that
  reaches the adapter later calls it.
\<close>

theorem writev_replaces_pending_write:
  assumes "pendingWriteCallback s = Some old" and "old \<noteq> cb"
    and "old \<notin> set (write_callbacks xs)"
  shows "writev utf8 K chunks cb s =
           maybeProcessPendingWrite K
             (s\<lparr>pendingWriteBuffer := Some (chunks_bytes utf8 chunks),
                pendingWriteCallback := Some cb\<rparr>)
         \<and> writev utf8 K chunks cb s =
             writev utf8 K chunks cb (s\<lparr>pendingWriteBuffer := None, pendingWriteCallback := None\<rparr>)
         \<and> calls_of old (trace (writev utf8 returns chunks cb s)) = calls_of old (trace s)
         \<and> calls_of old (trace (run utf8 returns xs (writev utf8 returns chunks cb s)))
             = calls_of old (trace s)"
proof -
  from writev_keeps_others [OF assms(2), of utf8 chunks s]
  have w: "pendingWriteCallback (writev utf8 returns chunks cb s) \<noteq> Some old"
    and c: "calls_of old (trace (writev utf8 returns chunks cb s)) = calls_of old (trace s)"
    by simp_all
  from run_keeps_others [OF w assms(3), of utf8] c
  have "calls_of old (trace (run utf8 returns xs (writev utf8 returns chunks cb s)))
          = calls_of old (trace s)"
    by simp
  with c show ?thesis
    by (simp add: writev_def chunks_bytes_def)
qed

theorem writev_replaces_pending_write_witness:
  "pendingWriteCallback open_with_write = Some 7
   \<and> 7 \<notin> set (write_callbacks [TimerFires, Write (BufferChunk [9]) ''buffer'' 9, CloseEvent])
   \<and> sent (trace (writev ascii returns
         [(StringChunk [104, 105], ''utf8''), (BufferChunk [1, 2, 3], ''buffer'')] 8
         open_with_write)) = [104, 105, 1, 2, 3]
   \<and> callbacks (trace (writev ascii returns
         [(StringChunk [104, 105], ''utf8''), (BufferChunk [1, 2, 3], ''buffer'')] 8
         open_with_write)) = [(8, None)]
   \<and> calls_of 7 (trace (run ascii returns
         [TimerFires, Write (BufferChunk [9]) ''buffer'' 9, CloseEvent]
         (writev ascii returns
           [(StringChunk [104, 105], ''utf8''), (BufferChunk [1, 2, 3], ''buffer'')] 8
           open_with_write))) = []"
proof -
  let ?chunks = "[(StringChunk [104, 105], ''utf8''), (BufferChunk [1, 2, 3], ''buffer'')]"
  have c: "pendingWriteCallback open_with_write = Some 7"
    by (simp add: open_with_write_def example_defs)
  have n: "(7::nat) \<noteq> 8"
    by simp
  have x: "7 \<notin> set (write_callbacks [TimerFires, Write (BufferChunk [9]) ''buffer'' 9, CloseEvent])"
    by simp
  have t: "calls_of 7 (trace open_with_write) = []"
    by (simp add: open_with_write_def example_defs calls_of_def)
  have e: "trace (writev ascii returns ?chunks 8 open_with_write)
             = trace small_stream @ [Send [104, 105, 1, 2, 3], InvokeWriteCallback 8 None]"
    by (simp add: writev_def maybeProcessPendingWrite_def finishPendingWrite_def
        record_effects_def split_buffer_def returns_def chunk_bytes_def ascii_def
        open_with_write_def example_defs)
  have s1: "sent (trace (writev ascii returns ?chunks 8 open_with_write)) = [104, 105, 1, 2, 3]"
    using small_stream_trace by (simp add: e sent_append)
  have s2: "callbacks (trace (writev ascii returns ?chunks 8 open_with_write)) = [(8, None)]"
    using small_stream_trace by (simp add: e callbacks_append)
  note later = writev_replaces_pending_write [OF c n x, of ascii returns ?chunks,
      THEN conjunct2, THEN conjunct2, THEN conjunct2]
  have r: "calls_of 7 (trace (run ascii returns
             [TimerFires, Write (BufferChunk [9]) ''buffer'' 9, CloseEvent]
             (writev ascii returns ?chunks 8 open_with_write))) = []"
    by (rule trans [OF later t])
  from c x s1 s2 r show ?thesis
    by (intro conjI) (assumption+)
qed

text \<open>
  The claim as stated has the callback of the replaced write never called, whatever it
  is. \<^verbatim>\<open>_writev\<close> stores the function it is given: when that is the function of the
  replaced write (Node hands the same one to every write), the call itself calls it, here
  on sending the three new bytes, while the fifteen bytes of the replaced write are never
  sent.
\<close>

theorem same_callback_counterexample:
  "pendingWriteBuffer open_with_write = Some bytes15
   \<and> pendingWriteCallback open_with_write = Some 7
   \<and> calls_of 7 (trace open_with_write) = []
   \<and> calls_of 7 (trace (writev ascii returns [(BufferChunk [1, 2, 3], ''buffer'')] 7
         open_with_write)) = [(7, None)]
   \<and> sent (trace (writev ascii returns [(BufferChunk [1, 2, 3], ''buffer'')] 7
         open_with_write)) = [1, 2, 3]"
  by (simp add: open_with_write_def example_defs run_defs env_defs calls_of_def)

subsection \<open>The pending fields are set together\<close>

lemma finish_paired:
  assumes "\<And>cb e s. paired s \<Longrightarrow> paired (K cb e s)"
  shows "paired (finishPendingWrite K err s)"
proof (cases "pendingWriteCallback s")
  case None
  then show ?thesis
    by (simp add: finishPendingWrite_def record_effects_def paired_def)
next
  case (Some cb)
  have "paired (record_effects [InvokeWriteCallback cb err]
          (s\<lparr>pendingWriteBuffer := None, pendingWriteCallback := None\<rparr>))"
    by (simp add: record_effects_def paired_def)
  from assms [OF this] Some show ?thesis
    by (simp add: finishPendingWrite_def)
qed

lemma advance_paired:
  assumes "\<And>cb e s. paired s \<Longrightarrow> paired (K cb e s)" and "paired s"
  shows "paired (maybeProcessPendingWrite K s)"
  using assms(2) finish_paired [of K, OF assms(1)]
  by (auto simp: maybeProcessPendingWrite_def record_effects_def paired_def Let_def
      split: option.splits prod.splits)

lemma writev_paired:
  assumes "\<And>cb e s. paired s \<Longrightarrow> paired (K cb e s)"
  shows "paired (writev utf8 K chunks cb s)"
  unfolding writev_def
  by (rule advance_paired) (rule assms, assumption, simp add: paired_def)

lemma destroy_paired: "paired s \<Longrightarrow> paired (destroy err s)"
  by (simp add: destroy_def destroy_impl_def record_effects_def paired_def)

lemma apply_op_paired:
  assumes "\<And>cb e s. paired s \<Longrightarrow> paired (K cb e s)" and "paired s"
  shows "paired (apply_op utf8 K x s)"
proof (cases x)
  case (Writev chunks cb)
  then show ?thesis
    by (simp add: apply_op_def writev_paired [of K, OF assms(1)])
next
  case (Write c enc cb)
  then show ?thesis
    by (simp add: apply_op_def write_impl_def writev_paired [of K, OF assms(1)])
next
  case TimerFires
  then show ?thesis
    by (simp add: apply_op_def advance_paired [of K, OF assms])
next
  case OpenEvent
  have "paired (record_effects [Emit ''connect''] s)"
    using assms(2) by (simp add: record_effects_def paired_def)
  from advance_paired [of K, OF assms(1) this] OpenEvent show ?thesis
    by (simp add: apply_op_def onOpen_def)
next
  case CloseEvent
  then show ?thesis
    by (simp add: apply_op_def onClose_def destroy_paired advance_paired [of K, OF assms])
next
  case (ErrorEvent m)
  then show ?thesis
    by (simp add: apply_op_def onError_def destroy_paired advance_paired [of K, OF assms])
next
  case (MessageEvent d)
  with assms(2) show ?thesis
    by (simp add: apply_op_def onMessage_def record_effects_def paired_def)
next
  case (Destroy err)
  with assms(2) show ?thesis
    by (simp add: apply_op_def destroy_paired)
next
  case (Transport rs amount raises)
  with assms(2) show ?thesis
    by (simp add: apply_op_def paired_def)
qed

lemma run_paired:
  assumes "\<And>cb e s. paired s \<Longrightarrow> paired (K cb e s)"
  shows "paired s \<Longrightarrow> paired (run utf8 K xs s)"
proof (induction xs arbitrary: s)
  case Nil
  then show ?case by simp
next
  case (Cons x xs)
  from Cons.IH [OF apply_op_paired [of K, OF assms Cons.prems]] show ?case
    by simp
qed

lemma new_paired: "paired (new_RTCStream h opts)"
  by (simp add: new_RTCStream_def paired_def Let_def)

text \<open>
  Claim C5. In every state that the adapter reaches from its construction, by any
  sequence of writes, timer firings, open, close, error and message events and destroy
  calls, and whatever the transport shows in between, the pending buffer is absent
  exactly when the pending callback is. A write callback may call back into the adapter:
  it is any \<open>K\<close> that keeps the pair intact when it starts from an intact pair, and
  in particular any callback that itself runs adapter operations.
\<close>

theorem pending_fields_paired:
  assumes "\<And>cb e s. paired s \<Longrightarrow> paired (K cb e s)"
  shows "paired (run utf8 K xs (new_RTCStream h opts))
         \<and> paired (run utf8 (\<lambda>cb e. run utf8 K (reenter cb e)) xs (new_RTCStream h opts))"
proof -
  have outer: "paired (run utf8 K xs (new_RTCStream h opts))"
    by (rule run_paired [of K, OF assms new_paired])
  have "paired (run utf8 K (reenter cb e) s)" if "paired s" for cb e s
    by (rule run_paired [of K, OF assms that])
  then have "paired (run utf8 (\<lambda>cb e. run utf8 K (reenter cb e)) xs (new_RTCStream h opts))"
    by (rule run_paired [OF _ new_paired])
  with outer show ?thesis
    by simp
qed

theorem pending_fields_paired_witness:
  "paired (run ascii returns
      [Write (BufferChunk bytes15) ''buffer'' 7, TimerFires, CloseEvent]
      (new_RTCStream ws_handle \<lparr>opt_bufferSize = Some 10, opt_bufferTimeout = None\<rparr>))
   \<and> paired (run ascii (\<lambda>cb e. run ascii returns [Write (BufferChunk [9]) ''buffer'' (Suc cb)])
      [Write (BufferChunk bytes15) ''buffer'' 7, TimerFires, CloseEvent]
      (new_RTCStream ws_handle \<lparr>opt_bufferSize = Some 10, opt_bufferTimeout = None\<rparr>))"
proof -
  have k: "paired (returns cb e s)" if "paired s" for cb e s
    using that by (simp add: returns_def)
  from pending_fields_paired [of returns ascii _ ws_handle _
      "\<lambda>cb e. [Write (BufferChunk [9]) ''buffer'' (Suc cb)]", OF k]
  show ?thesis
    by blast
qed

subsection \<open>The non-null assertions hold\<close>

lemma uncaught_append: "uncaught (xs @ ys) = uncaught xs @ uncaught ys"
  by (induction xs rule: uncaught.induct) simp_all

lemma advance_never_throws:
  "paired s \<Longrightarrow> uncaught (trace (maybeProcessPendingWrite returns s)) = uncaught (trace s)"
  by (auto simp: maybeProcessPendingWrite_def finishPendingWrite_def record_effects_def
      returns_def paired_def uncaught_append Let_def split: option.splits prod.splits)

lemma destroy_never_throws: "uncaught (trace (destroy err s)) = uncaught (trace s)"
  by (simp add: destroy_def destroy_impl_def record_effects_def uncaught_append)

lemma apply_op_never_throws:
  assumes "paired s"
  shows "uncaught (trace (apply_op utf8 returns x s)) = uncaught (trace s)"
proof (cases x)
  case (Writev chunks cb)
  have "paired (s\<lparr>pendingWriteBuffer := Some (concat (map (\<lambda>(c, enc). chunk_bytes utf8 c) chunks)),
                  pendingWriteCallback := Some cb\<rparr>)"
    by (simp add: paired_def)
  from advance_never_throws [OF this] Writev show ?thesis
    by (simp add: apply_op_def writev_def)
next
  case (Write c enc cb)
  have "paired (s\<lparr>pendingWriteBuffer := Some (chunk_bytes utf8 c), pendingWriteCallback := Some cb\<rparr>)"
    by (simp add: paired_def)
  from advance_never_throws [OF this] Write show ?thesis
    by (simp add: apply_op_def write_impl_def writev_def)
next
  case TimerFires
  with advance_never_throws [OF assms] show ?thesis
    by (simp add: apply_op_def)
next
  case OpenEvent
  have "paired (record_effects [Emit ''connect''] s)"
    using assms by (simp add: record_effects_def paired_def)
  from advance_never_throws [OF this] OpenEvent show ?thesis
    by (simp add: apply_op_def onOpen_def record_effects_def uncaught_append)
next
  case CloseEvent
  with advance_never_throws [OF assms] show ?thesis
    by (simp add: apply_op_def onClose_def destroy_never_throws)
next
  case (ErrorEvent m)
  with advance_never_throws [OF assms] show ?thesis
    by (simp add: apply_op_def onError_def destroy_never_throws)
next
  case (MessageEvent d)
  then show ?thesis
    by (simp add: apply_op_def onMessage_def record_effects_def uncaught_append)
next
  case (Destroy err)
  then show ?thesis
    by (simp add: apply_op_def destroy_never_throws)
next
  case (Transport rs amount raises)
  then show ?thesis
    by (simp add: apply_op_def)
qed

lemma returns_paired: "paired s \<Longrightarrow> paired (returns cb e s)"
  by (simp add: returns_def)

lemma run_never_throws:
  "paired s \<Longrightarrow> uncaught (trace (run utf8 returns xs s)) = uncaught (trace s)"
proof (induction xs arbitrary: s)
  case Nil
  then show ?case by simp
next
  case (Cons x xs)
  have "paired (apply_op utf8 returns x s)"
    by (rule apply_op_paired) (rule returns_paired, assumption, rule Cons.prems)
  from Cons.IH [OF this] apply_op_never_throws [OF Cons.prems, of utf8 x] show ?case
    by simp
qed

lemma reachable_never_throws:
  "uncaught (trace (run utf8 returns xs (new_RTCStream h opts))) = []"
proof -
  have "uncaught (trace (new_RTCStream h opts)) = []"
    by (simp add: new_RTCStream_def Let_def)
  with run_never_throws [OF new_paired, of utf8 xs h opts] show ?thesis
    by simp
qed

subsection \<open>Bytes sent and bytes outstanding\<close>










subsection \<open>Draining a write over several polls\<close>

lemma timer_count_Cons:
  "timer_count (x # xs) = (if x = TimerFires then Suc (timer_count xs) else timer_count xs)"
  by (simp add: timer_count_def)

lemma polls_when_idle:
  "idle s \<Longrightarrow> list_all is_poll xs \<Longrightarrow>
   idle (run utf8 K xs s) \<and> trace (run utf8 K xs s) = trace s"
proof (induction xs arbitrary: s)
  case Nil
  then show ?case by simp
next
  case (Cons x xs)
  from Cons.prems(2) have p: "is_poll x" and ps: "list_all is_poll xs"
    by simp_all
  from p Cons.prems(1) have "idle (apply_op utf8 K x s) \<and> trace (apply_op utf8 K x s) = trace s"
    by (cases x) (simp_all add: apply_op_def idle_def advance_idle)
  with Cons.IH [OF _ ps, of "apply_op utf8 K x s"] show ?case
    by simp
qed

lemma slice_rest_length:
  "0 < n \<Longrightarrow> n < int (length b) \<Longrightarrow> length (slice b n None) = length b - nat n"
  by (simp add: slice_suffix_pos)

lemma drain:
  "pendingWriteBuffer s = Some b \<Longrightarrow> pendingWriteCallback s = Some cb \<Longrightarrow>
   clear_run utf8 returns xs s \<Longrightarrow> list_all is_poll xs \<Longrightarrow>
   length b \<le> timer_count xs \<Longrightarrow> 0 < timer_count xs \<Longrightarrow>
   idle (run utf8 returns xs s)
   \<and> sent (trace (run utf8 returns xs s)) = sent (trace s) @ b
   \<and> callbacks (trace (run utf8 returns xs s)) = callbacks (trace s) @ [(cb, None)]"
proof (induction xs arbitrary: s b)
  case Nil
  then show ?case by (simp add: timer_count_def)
next
  case (Cons x xs)
  from Cons.prems(4) have p: "is_poll x" and ps: "list_all is_poll xs"
    by simp_all
  from Cons.prems(3) have r: "clear_run utf8 returns xs (apply_op utf8 returns x s)"
    by simp
  show ?case
  proof (cases x)
    case (Transport rs amount raises)
    let ?s = "apply_op utf8 returns x s"
    have b: "pendingWriteBuffer ?s = Some b" and c: "pendingWriteCallback ?s = Some cb"
      and t: "trace ?s = trace s"
      using Cons.prems(1,2) Transport by (simp_all add: apply_op_def)
    have n: "length b \<le> timer_count xs" "0 < timer_count xs"
      using Cons.prems(5,6) Transport by (simp_all add: timer_count_Cons)
    from Cons.IH [OF b c r ps n] t show ?thesis
      by simp
  next
    case TimerFires
    let ?s = "apply_op utf8 returns x s"
    have adv: "?s = maybeProcessPendingWrite returns s"
      using TimerFires by (simp add: apply_op_def)
    have cts: "clear_to_send s"
      using Cons.prems(3) TimerFires by simp
    then have op: "transport_open s" and h: "0 < headroom s" and h0: "headroom s \<noteq> 0"
      and ok: "send_raises (handle s) chunk = None" for chunk
      by (simp_all add: clear_to_send_def send_returns_def)
    show ?thesis
    proof (cases "int (length b) \<le> headroom s")
      case True
      from advance_whole [OF Cons.prems(2,1) op h0 True ok, of returns]
      have s': "?s = s\<lparr>pendingWriteBuffer := None, pendingWriteCallback := None,
                       trace := trace s @ [Send b, InvokeWriteCallback cb None]\<rparr>"
        by (simp add: adv returns_def)
      then have "idle ?s"
        by (simp add: idle_def)
      from polls_when_idle [OF this ps, of utf8 returns] s' show ?thesis
        by (simp add: sent_append callbacks_append)
    next
      case False
      then have less: "headroom s < int (length b)"
        by simp
      from advance_partial [OF Cons.prems(2,1) op h0 less ok, of returns]
      have s': "?s = s\<lparr>pendingWriteBuffer := Some (slice b (headroom s) None),
                       trace := trace s @ [Send (slice b 0 (Some (headroom s))),
                                           SetTimeout (bufferTimeout s)]\<rparr>"
        by (simp add: adv)
      then have b: "pendingWriteBuffer ?s = Some (slice b (headroom s) None)"
        and c: "pendingWriteCallback ?s = Some cb"
        using Cons.prems(2) by simp_all
      have len: "length (slice b (headroom s) None) = length b - nat (headroom s)"
        by (rule slice_rest_length [OF h less])
      have n: "length (slice b (headroom s) None) \<le> timer_count xs" "0 < timer_count xs"
        using Cons.prems(5) TimerFires h less len by (simp_all add: timer_count_Cons)
      from Cons.IH [OF b c r ps n] s' show ?thesis
        by (simp add: sent_append callbacks_append slice_cat)
    qed
  qed (use p in simp_all)
qed

text \<open>
  Where the headroom is positive and smaller than the pending buffer, one run of the
  advance routine in which \<^verbatim>\<open>send\<close> returns hands \<^verbatim>\<open>send\<close> the prefix of
  headroom bytes, keeps the remaining suffix as the pending buffer with the callback as it
  was, and sets a timer of \<^verbatim>\<open>bufferTimeout\<close>. Polls at which the transport is open,
  the headroom positive and \<^verbatim>\<open>send\<close> returns complete the write: after as many
  timers as the buffer has bytes, no write is outstanding, the chunks sent make up the
  buffer in order, and the callback has been called once, with no error.
\<close>

lemma partial_send_then_retry:
  assumes "pendingWriteBuffer s = Some b" and "pendingWriteCallback s = Some cb"
    and "transport_open s" and "0 < headroom s" and "headroom s < int (length b)"
    and "send_raises (handle s) (take (nat (headroom s)) b) = None"
    and "clear_run utf8 returns xs s" and "list_all is_poll xs"
    and "length b \<le> timer_count xs"
  shows "maybeProcessPendingWrite K s =
           s\<lparr>pendingWriteBuffer := Some (drop (nat (headroom s)) b),
             trace := trace s @ [Send (take (nat (headroom s)) b), SetTimeout (bufferTimeout s)]\<rparr>
         \<and> idle (run utf8 returns xs s)
         \<and> sent (trace (run utf8 returns xs s)) = sent (trace s) @ b
         \<and> callbacks (trace (run utf8 returns xs s)) = callbacks (trace s) @ [(cb, None)]"
proof -
  have pre: "slice b 0 (Some (headroom s)) = take (nat (headroom s)) b"
    using assms(4,5) by (simp add: slice_prefix_pos)
  have suf: "slice b (headroom s) None = drop (nat (headroom s)) b"
    using assms(4) by (simp add: slice_suffix_pos)
  have h0: "headroom s \<noteq> 0"
    using assms(4) by simp
  have ok: "send_raises (handle s) (slice b 0 (Some (headroom s))) = None"
    using assms(6) by (simp add: pre)
  have step: "maybeProcessPendingWrite K s =
           s\<lparr>pendingWriteBuffer := Some (drop (nat (headroom s)) b),
             trace := trace s @ [Send (take (nat (headroom s)) b), SetTimeout (bufferTimeout s)]\<rparr>"
    using advance_partial [OF assms(2,1,3) h0 assms(5) ok, of K] by (simp add: pre suf)
  have "0 < timer_count xs"
    using assms(4,5,9) by simp
  from drain [OF assms(1,2,7,8,9) this] step show ?thesis
    by simp
qed

lemma partial_send_then_retry_example:
  "transport_open tight_with_write \<and> headroom tight_with_write = 2
   \<and> clear_run ascii returns tight_polls tight_with_write
   \<and> trace (maybeProcessPendingWrite returns tight_with_write)
       = trace small_stream @ [Send [1, 2], SetTimeout 50]
   \<and> pendingWriteBuffer (maybeProcessPendingWrite returns tight_with_write) = Some [3]
   \<and> pendingWriteCallback (maybeProcessPendingWrite returns tight_with_write) = Some 7
   \<and> idle (run ascii returns tight_polls tight_with_write)
   \<and> sent (trace (run ascii returns tight_polls tight_with_write)) = [1, 2, 3]
   \<and> callbacks (trace (run ascii returns tight_polls tight_with_write)) = [(7, None)]"
proof -
  have b: "pendingWriteBuffer tight_with_write = Some [1, 2, 3]"
    and c: "pendingWriteCallback tight_with_write = Some 7"
    and o: "transport_open tight_with_write"
    and h: "headroom tight_with_write = 2"
    and t: "trace tight_with_write = trace small_stream"
    and tm: "bufferTimeout tight_with_write = 50"
    by (simp_all add: tight_with_write_def example_defs env_defs)
  have hp: "0 < headroom tight_with_write"
    and hl: "headroom tight_with_write < int (length [1, 2, 3 :: byte])"
    by (simp_all add: h)
  have ok: "send_raises (handle tight_with_write)
              (take (nat (headroom tight_with_write)) [1, 2, 3]) = None"
    by (simp add: tight_with_write_def example_defs)
  have r: "clear_run ascii returns tight_polls tight_with_write"
    by (simp add: tight_polls_def tight_with_write_def example_defs run_defs env_defs)
  have p: "list_all is_poll tight_polls"
    by (simp add: tight_polls_def)
  have n: "length [1, 2, 3 :: byte] \<le> timer_count tight_polls"
    by (simp add: tight_polls_def timer_count_def)
  have two: "nat 2 = Suc (Suc 0)"
    by simp
  from partial_send_then_retry [OF b c o hp hl ok r p n, of returns] c o h r t tm
    small_stream_trace
  show ?thesis
    by (simp add: two)
qed

lemma negative_headroom_stuck:
  assumes "pendingWriteBuffer s = Some b" and "pendingWriteCallback s = Some cb"
    and "transport_open s" and "headroom s < 0" and "int (length b) \<le> - headroom s"
    and "send_returns s"
  shows "maybeProcessPendingWrite K s = s\<lparr>trace := trace s @ [Send [], SetTimeout (bufferTimeout s)]\<rparr>"
proof -
  have h0: "headroom s \<noteq> 0" and less: "headroom s < int (length b)"
    using assms(4) by simp_all
  have ok: "send_raises (handle s) (slice b 0 (Some (headroom s))) = None"
    using assms(6) by (simp add: send_returns_def)
  have pre: "slice b 0 (Some (headroom s)) = []"
    using assms(4,5) by (simp add: slice_def slice_index_def)
  have suf: "slice b (headroom s) None = b"
    using assms(4,5) by (simp add: slice_def slice_index_def)
  have "s\<lparr>pendingWriteBuffer := Some b\<rparr> = s"
    using assms(1) by simp
  with advance_partial [OF assms(2,1,3) h0 less ok, of K] show ?thesis
    by (simp add: pre suf)
qed

lemma negative_headroom_polls:
  "pendingWriteBuffer s = Some b \<Longrightarrow> pendingWriteCallback s = Some cb \<Longrightarrow>
   transport_open s \<Longrightarrow> headroom s < 0 \<Longrightarrow> int (length b) \<le> - headroom s \<Longrightarrow>
   send_returns s \<Longrightarrow>
   pendingWriteBuffer (run utf8 K (replicate n TimerFires) s) = Some b
   \<and> pendingWriteCallback (run utf8 K (replicate n TimerFires) s) = Some cb
   \<and> sent (trace (run utf8 K (replicate n TimerFires) s)) = sent (trace s)
   \<and> callbacks (trace (run utf8 K (replicate n TimerFires) s)) = callbacks (trace s)"
proof (induction n arbitrary: s)
  case 0
  then show ?case by simp
next
  case (Suc n)
  let ?s = "s\<lparr>trace := trace s @ [Send [], SetTimeout (bufferTimeout s)]\<rparr>"
  have step: "apply_op utf8 K TimerFires s = ?s"
    using negative_headroom_stuck [OF Suc.prems, of K] by (simp add: apply_op_def)
  have b: "pendingWriteBuffer ?s = Some b" and c: "pendingWriteCallback ?s = Some cb"
    and o: "transport_open ?s" and h: "headroom ?s < 0"
    and l: "int (length b) \<le> - headroom ?s" and r: "send_returns ?s"
    using Suc.prems by (auto simp: transport_open_def headroom_def send_returns_def)
  from Suc.IH [OF b c o h l r] show ?case
    by (simp add: step sent_append callbacks_append)
qed

text \<open>
  Claim C2. A headroom that is not zero and smaller than the pending buffer is to have
  one step send the prefix of headroom size and keep the rest, and repeated steps send
  the whole buffer. The code does not do this when the headroom is negative: it tests
  the headroom against zero only, and \<^verbatim>\<open>slice\<close> counts a negative index from the end.
  With 12 bytes buffered against a \<^verbatim>\<open>bufferSize\<close> of 10 the headroom is -2, not zero
  and smaller than the length of a 5-byte buffer: the step sends the first three bytes
  into the overfull transport and keeps the last two. At that headroom every later step
  sends an empty chunk and sets a timer again: however many timers fire, the last two
  bytes are never sent and the callback is never called.
\<close>

theorem negative_headroom_never_drains:
  "0 \<le> bufferedAmount (handle overfull_with_write)
   \<and> headroom overfull_with_write = - 2
   \<and> pendingWriteBuffer overfull_with_write = Some [1, 2, 3, 4, 5]
   \<and> trace (maybeProcessPendingWrite K overfull_with_write)
       = trace small_stream @ [Send [1, 2, 3], SetTimeout 50]
   \<and> pendingWriteBuffer (maybeProcessPendingWrite K overfull_with_write) = Some [4, 5]
   \<and> trace (maybeProcessPendingWrite K (maybeProcessPendingWrite K overfull_with_write))
       = trace small_stream @ [Send [1, 2, 3], SetTimeout 50, Send [], SetTimeout 50]
   \<and> pendingWriteBuffer (run ascii K (replicate (Suc n) TimerFires) overfull_with_write)
       = Some [4, 5]
   \<and> sent (trace (run ascii K (replicate (Suc n) TimerFires) overfull_with_write)) = [1, 2, 3]
   \<and> callbacks (trace (run ascii K (replicate (Suc n) TimerFires) overfull_with_write)) = []"
proof -
  let ?s = "maybeProcessPendingWrite K overfull_with_write"
  have first: "?s = overfull_with_write
                 \<lparr>pendingWriteBuffer := Some [4, 5],
                  trace := trace small_stream @ [Send [1, 2, 3], SetTimeout 50]\<rparr>"
    by (simp add: overfull_with_write_def example_defs run_defs env_defs)
  have b: "pendingWriteBuffer ?s = Some [4, 5]" and c: "pendingWriteCallback ?s = Some 7"
    and o: "transport_open ?s" and h: "headroom ?s < 0"
    and l: "int (length [4, 5 :: byte]) \<le> - headroom ?s" and r: "send_returns ?s"
    and s0: "sent (trace ?s) = [1, 2, 3]" and c0: "callbacks (trace ?s) = []"
    and tm: "bufferTimeout ?s = 50"
    by (simp_all add: first) (simp_all add: overfull_with_write_def example_defs env_defs)
  have start: "0 \<le> bufferedAmount (handle overfull_with_write)"
    "headroom overfull_with_write = - 2"
    "pendingWriteBuffer overfull_with_write = Some [1, 2, 3, 4, 5]"
    by (simp_all add: overfull_with_write_def example_defs env_defs)
  have second: "trace (maybeProcessPendingWrite K ?s)
                  = trace small_stream @ [Send [1, 2, 3], SetTimeout 50, Send [], SetTimeout 50]"
    by (simp add: negative_headroom_stuck [OF b c o h l r, of K] tm) (simp add: first)
  have unfold: "run ascii K (replicate (Suc n) TimerFires) overfull_with_write
                  = run ascii K (replicate n TimerFires) ?s"
    by (simp add: apply_op_def)
  note polls = negative_headroom_polls [OF b c o h l r, of ascii K n]
  have p1: "pendingWriteBuffer (run ascii K (replicate (Suc n) TimerFires) overfull_with_write)
              = Some [4, 5]"
    unfolding unfold by (rule polls [THEN conjunct1])
  have p2: "sent (trace (run ascii K (replicate (Suc n) TimerFires) overfull_with_write))
              = [1, 2, 3]"
    unfolding unfold using polls [THEN conjunct2, THEN conjunct2, THEN conjunct1]
    by (simp only: s0)
  have p3: "callbacks (trace (run ascii K (replicate (Suc n) TimerFires) overfull_with_write))
              = []"
    unfolding unfold using polls [THEN conjunct2, THEN conjunct2, THEN conjunct2]
    by (simp only: c0)
  have t1: "trace ?s = trace small_stream @ [Send [1, 2, 3], SetTimeout 50]"
    by (simp add: first)
  from start t1 b second p1 p2 p3 show ?thesis
    by (intro conjI) (assumption+)
qed

subsection \<open>Nothing is sent before the transport opens\<close>












end
